theory Spec2Isabelle
  imports Complex_Main "HOL-Library.Sublist"
begin

section \<open>Values shared by the modules\<close>

text \<open>
  Python floats. Every finite double is a rational; the three non-finite values are
  kept apart (\<^verbatim>\<open>float("nan")\<close> and \<^verbatim>\<open>json.loads("Infinity")\<close> both succeed).
\<close>

datatype pyfloat = Finite rat | PosInf | NegInf | NaN

text \<open>
  The values \<^verbatim>\<open>response.json()\<close> can return. Python's \<^verbatim>\<open>None\<close> is \<open>JNull\<close>. A dict is
  an association list read with \<open>map_of\<close>. Strings are lists of code points below 256.
\<close>

datatype json =
    JNull
  | JBool bool
  | JInt int
  | JFloat pyfloat
  | JStr string
  | JArr "json list"
  | JObj "(string \<times> json) list"

text \<open>Python truth value testing, as used by \<^verbatim>\<open>if b.state\<close> and \<^verbatim>\<open>if state_data\<close>.\<close>

fun truthy :: "json \<Rightarrow> bool" where
  "truthy JNull = False"
| "truthy (JBool b) = b"
| "truthy (JInt i) = (i \<noteq> 0)"
| "truthy (JFloat f) = (case f of Finite q \<Rightarrow> q \<noteq> 0 | _ \<Rightarrow> True)"
| "truthy (JStr s) = (s \<noteq> [])"
| "truthy (JArr xs) = (xs \<noteq> [])"
| "truthy (JObj kvs) = (kvs \<noteq> [])"

text \<open>The exceptions the modelled code raises or lets escape.\<close>

datatype error = RuntimeError string | AttributeError | RecursionError

section \<open>config.py\<close>

definition DEFAULT_REFRESH_INTERVAL :: pyfloat where
  "DEFAULT_REFRESH_INTERVAL = Finite 2"

definition DEFAULT_REQUEST_TIMEOUT :: pyfloat where
  "DEFAULT_REQUEST_TIMEOUT = Finite 30"

definition DEFAULT_STATE_TIMEOUT :: pyfloat where
  "DEFAULT_STATE_TIMEOUT = Finite 5"

definition DEFAULT_HEALTH_TIMEOUT :: pyfloat where
  "DEFAULT_HEALTH_TIMEOUT = Finite 2"

record settings =
  backend_urls :: "string list"
  refresh_interval :: pyfloat
  request_timeout :: pyfloat
  state_timeout :: pyfloat
  health_timeout :: pyfloat

text \<open>\<^verbatim>\<open>str.isspace\<close> on the code points below 256.\<close>

definition isspace :: "char \<Rightarrow> bool" where
  "isspace c = (c \<in> set [CHR 0x09, CHR 0x0A, CHR 0x0B, CHR 0x0C, CHR 0x0D,
                          CHR 0x1C, CHR 0x1D, CHR 0x1E, CHR 0x1F, CHR 0x20,
                          CHR 0x85, CHR 0xA0])"

text \<open>\<^verbatim>\<open>s.strip()\<close>: whitespace removed at both ends.\<close>

definition strip :: "string \<Rightarrow> string" where
  "strip s = rev (dropWhile isspace (rev (dropWhile isspace s)))"

text \<open>\<^verbatim>\<open>s.rstrip(chars)\<close>: trailing characters of the set \<open>chars\<close> removed.\<close>

definition rstrip :: "string \<Rightarrow> string \<Rightarrow> string" where
  "rstrip chars s = rev (dropWhile (\<lambda>c. c \<in> set chars) (rev s))"

text \<open>\<^verbatim>\<open>s.split(sep)\<close> for a one-character separator: never the empty list.\<close>

fun split_on :: "char \<Rightarrow> string \<Rightarrow> string list" where
  "split_on sep [] = [[]]"
| "split_on sep (c # cs) =
     (if c = sep then [] # split_on sep cs
      else (case split_on sep cs of
              [] \<Rightarrow> [[c]]
            | w # ws \<Rightarrow> (c # w) # ws))"

text \<open>
  The list comprehension of \<^verbatim>\<open>Settings.load\<close>:
  \<^verbatim>\<open>[b.strip().rstrip("/") for b in raw_backends.split(",") if b.strip()]\<close>.
\<close>

definition parse_backends :: "string \<Rightarrow> string list" where
  "parse_backends raw_backends =
     map (\<lambda>b. rstrip ''/'' (strip b))
       (filter (\<lambda>b. strip b \<noteq> []) (split_on (CHR '','') raw_backends))"

definition backends_message :: string where
  "backends_message =
     ''MLNODE_BACKENDS environment variable must contain at least one backend URL''"

text \<open>
  The inner function \<^verbatim>\<open>_float_env\<close>. The builtin \<^verbatim>\<open>float\<close> is a parameter: \<open>None\<close> is
  its \<^verbatim>\<open>ValueError\<close>. The environment is a map from names to values.
\<close>

definition float_env ::
  "(string \<Rightarrow> pyfloat option) \<Rightarrow> (string \<rightharpoonup> string) \<Rightarrow> string \<Rightarrow> pyfloat \<Rightarrow> error + pyfloat"
where
  "float_env float_of getenv name dflt =
     (case getenv name of
        None \<Rightarrow> Inr dflt
      | Some raw \<Rightarrow>
          (case float_of raw of
             Some v \<Rightarrow> Inr v
           | None \<Rightarrow> Inl (RuntimeError (''Invalid float value for '' @ name @ '': '' @ raw))))"

text \<open>\<^verbatim>\<open>os.getenv(name, default)\<close>.\<close>

definition getenv_or :: "(string \<rightharpoonup> string) \<Rightarrow> string \<Rightarrow> string \<Rightarrow> string" where
  "getenv_or getenv name dflt = (case getenv name of None \<Rightarrow> dflt | Some v \<Rightarrow> v)"

text \<open>\<^verbatim>\<open>Settings.load\<close>. The keyword arguments are evaluated in the order written.\<close>

definition load ::
  "(string \<Rightarrow> pyfloat option) \<Rightarrow> (string \<rightharpoonup> string) \<Rightarrow> error + settings"
where
  "load float_of getenv =
     (let raw_backends = getenv_or getenv ''MLNODE_BACKENDS'' [];
          backends = parse_backends raw_backends
      in if backends = [] then Inl (RuntimeError backends_message)
         else
           (case float_env float_of getenv ''MLNODE_REFRESH_INTERVAL'' DEFAULT_REFRESH_INTERVAL of
              Inl e \<Rightarrow> Inl e
            | Inr ri \<Rightarrow>
           (case float_env float_of getenv ''MLNODE_REQUEST_TIMEOUT'' DEFAULT_REQUEST_TIMEOUT of
              Inl e \<Rightarrow> Inl e
            | Inr rt \<Rightarrow>
           (case float_env float_of getenv ''MLNODE_STATE_TIMEOUT'' DEFAULT_STATE_TIMEOUT of
              Inl e \<Rightarrow> Inl e
            | Inr st \<Rightarrow>
           (case float_env float_of getenv ''MLNODE_HEALTH_TIMEOUT'' DEFAULT_HEALTH_TIMEOUT of
              Inl e \<Rightarrow> Inl e
            | Inr ht \<Rightarrow>
                Inr \<lparr>backend_urls = backends, refresh_interval = ri, request_timeout = rt,
                     state_timeout = st, health_timeout = ht\<rparr>)))))"

section \<open>backends.py\<close>

record backend =
  url :: string
  settings :: settings
  state :: json
  healthy :: bool
  active_requests :: int

text \<open>The dataclass constructor with its field defaults.\<close>

definition Backend :: "string \<Rightarrow> settings \<Rightarrow> backend" where
  "Backend u s = \<lparr>url = u, settings = s, state = JNull, healthy = False, active_requests = 0\<rparr>"

definition mark_request_start :: "backend \<Rightarrow> backend" where
  "mark_request_start b = b\<lparr>active_requests := active_requests b + 1\<rparr>"

definition mark_request_done :: "backend \<Rightarrow> backend" where
  "mark_request_done b =
     (if active_requests b > 0 then b\<lparr>active_requests := active_requests b - 1\<rparr> else b)"

definition is_available :: "backend \<Rightarrow> bool" where
  "is_available b = (healthy b \<and> state b = JStr ''INFERENCE'')"

text \<open>
  The pool. A backend object is referred to by its position in \<open>backends\<close>: the list
  is built once and never grows or shrinks.
\<close>

record backend_pool =
  pool_settings :: settings
  backends :: "backend list"

definition BackendPool :: "settings \<Rightarrow> backend_pool" where
  "BackendPool s = \<lparr>pool_settings = s, backends = map (\<lambda>b. Backend b s) (backend_urls s)\<rparr>"

text \<open>
  The builtin \<^verbatim>\<open>min(iterable, key=...)\<close> on a non-empty iterable: the first element is
  the running best, and a later element replaces it only when its key is strictly smaller.
\<close>

fun min_by :: "('a \<Rightarrow> int) \<Rightarrow> 'a \<Rightarrow> 'a list \<Rightarrow> 'a" where
  "min_by key best [] = best"
| "min_by key best (x # xs) = min_by key (if key x < key best then x else best) xs"

definition no_healthy_message :: string where
  "no_healthy_message = ''No healthy inference backends available''"

text \<open>
  \<^verbatim>\<open>BackendPool.pick_backend\<close>. The body runs inside \<^verbatim>\<open>async with self._pick_lock\<close> and
  never suspends, so it is one atomic step on the pool. It returns the position of the
  chosen backend and the pool after \<^verbatim>\<open>mark_request_start\<close>.
\<close>

definition pick_backend :: "backend_pool \<Rightarrow> error + (nat \<times> backend_pool)" where
  "pick_backend p =
     (let candidates = filter (\<lambda>i. is_available (backends p ! i)) [0 ..< length (backends p)]
      in case candidates of
           [] \<Rightarrow> Inl (RuntimeError no_healthy_message)
         | c # cs \<Rightarrow>
             (let i = min_by (\<lambda>i. active_requests (backends p ! i)) c cs
              in Inr (i, p\<lparr>backends := (backends p)[i := mark_request_start (backends p ! i)]\<rparr>)))"

definition release_backend :: "backend_pool \<Rightarrow> nat \<Rightarrow> backend_pool" where
  "release_backend p i = p\<lparr>backends := (backends p)[i := mark_request_done (backends p ! i)]\<rparr>"

text \<open>The \<^verbatim>\<open>for state in priority\<close> loop of \<^verbatim>\<open>aggregate_state\<close>.\<close>

fun first_priority :: "string list \<Rightarrow> json list \<Rightarrow> string" where
  "first_priority [] states = ''STOPPED''"
| "first_priority (s # priority) states =
     (if JStr s \<in> set states then s else first_priority priority states)"

definition aggregate_state :: "backend_pool \<Rightarrow> string" where
  "aggregate_state p =
     (let states = map state (filter (\<lambda>b. truthy (state b)) (backends p));
          priority = [''INFERENCE'', ''POW'', ''TRAIN'', ''STOPPED'']
      in first_priority priority states)"

definition any_healthy :: "backend_pool \<Rightarrow> bool" where
  "any_healthy p = list_ex is_available (backends p)"

text \<open>
  Every write to a backend in the source is one of three: \<^verbatim>\<open>mark_request_start\<close>,
  \<^verbatim>\<open>mark_request_done\<close>, or the two assignments of a monitor iteration.
\<close>

datatype backend_event = RequestStart | RequestDone | Polled json bool

fun apply_event :: "backend \<Rightarrow> backend_event \<Rightarrow> backend" where
  "apply_event b RequestStart = mark_request_start b"
| "apply_event b RequestDone = mark_request_done b"
| "apply_event b (Polled st h) = b\<lparr>state := st, healthy := h\<rparr>"

definition run_events :: "backend \<Rightarrow> backend_event list \<Rightarrow> backend" where
  "run_events b evs = foldl apply_event b evs"

section \<open>monitor.py\<close>

text \<open>
  What \<^verbatim>\<open>client.get\<close> does: it raises, or returns a response with a status code and a
  body. On the body \<^verbatim>\<open>.json()\<close> has three outcomes: it raises \<^verbatim>\<open>ValueError\<close> (the body is
  not JSON), it returns a value, or the decoder gives up on a body nested deeper than the
  interpreter's recursion limit and raises \<^verbatim>\<open>RecursionError\<close>, which is no \<^verbatim>\<open>ValueError\<close>.
\<close>

datatype body = NotJson | Json json | NestedTooDeep

datatype http_result = RequestFailed | Response int body

text \<open>
  \<^verbatim>\<open>_fetch_json\<close>: \<^verbatim>\<open>except Exception\<close> around the request, \<^verbatim>\<open>except ValueError\<close> around
  \<^verbatim>\<open>.json()\<close>. What the second handler does not catch escapes to the caller.
\<close>

definition fetch_json :: "http_result \<Rightarrow> error + json" where
  "fetch_json r =
     (case r of
        RequestFailed \<Rightarrow> Inr JNull
      | Response status_code b \<Rightarrow>
          (if status_code \<noteq> 200 then Inr JNull
           else (case b of
                   NotJson \<Rightarrow> Inr JNull
                 | Json v \<Rightarrow> Inr v
                 | NestedTooDeep \<Rightarrow> Inl RecursionError)))"

definition fetch_status :: "http_result \<Rightarrow> bool" where
  "fetch_status r =
     (case r of
        RequestFailed \<Rightarrow> False
      | Response status_code b \<Rightarrow> status_code = 200)"

text \<open>\<^verbatim>\<open>value.get(key)\<close>: only a dict has the method.\<close>

definition dict_get :: "json \<Rightarrow> string \<Rightarrow> error + json" where
  "dict_get v k =
     (case v of
        JObj kvs \<Rightarrow> Inr (case map_of kvs k of None \<Rightarrow> JNull | Some x \<Rightarrow> x)
      | _ \<Rightarrow> Inl AttributeError)"

text \<open>
  One pass through the body of the \<^verbatim>\<open>while True\<close> loop of \<^verbatim>\<open>monitor_backend\<close>, the
  sleep left out. The client maps the requested URL to what the request does. The loop
  has no handler of its own: an exception ends the iteration before anything is assigned
  and before the health request is made, and with it the task.
\<close>

definition monitor_iteration :: "backend \<Rightarrow> (string \<Rightarrow> http_result) \<Rightarrow> error + backend" where
  "monitor_iteration b client =
     (let state_url = url b @ ''/api/v1/state'';
          health_url = url b @ ''/health''
      in case fetch_json (client state_url) of
           Inl e \<Rightarrow> Inl e
         | Inr state_data \<Rightarrow>
             (case (if truthy state_data then dict_get state_data ''state'' else Inr JNull) of
                Inl e \<Rightarrow> Inl e
              | Inr st \<Rightarrow>
                  Inr (b\<lparr>state := st, healthy := fetch_status (client health_url)\<rparr>)))"

text \<open>
  The loop itself runs until the task is cancelled: one client per iteration, and the
  end of the list is the cancellation.
\<close>

fun monitor_backend :: "backend \<Rightarrow> (string \<Rightarrow> http_result) list \<Rightarrow> error + backend" where
  "monitor_backend b [] = Inr b"
| "monitor_backend b (client # rest) =
     (case monitor_iteration b client of
        Inl e \<Rightarrow> Inl e
      | Inr b' \<Rightarrow> monitor_backend b' rest)"

section \<open>app.py\<close>

text \<open>Of the incoming request only \<^verbatim>\<open>request.url.path\<close> decides what the handlers do.\<close>

record request =
  path :: string

text \<open>Entering the \<^verbatim>\<open>client.stream\<close> context: it raises, or yields the upstream status.\<close>

datatype upstream = OpenFailed | Opened int

text \<open>
  What a handler produces. A \<open>StreamingResponse\<close> carries the upstream status and the
  position of the backend its background task releases once the body is delivered.
  Request and response headers and bodies are passed through and are not modelled.
\<close>

datatype response =
    HTTPException int string
  | JSONResponse int json
  | StreamingResponse int nat

text \<open>
  A handler returns its response, the upstream URLs it opened, and the pool as it is
  when the response is handed to the framework.
\<close>

type_synonym handled = "response \<times> string list \<times> backend_pool"

text \<open>The path rewrite of \<^verbatim>\<open>_proxy_request\<close> (\<^verbatim>\<open>if mount_path: ...\<close>).\<close>

definition rewrite_path :: "string \<Rightarrow> string \<Rightarrow> string" where
  "rewrite_path target_path mount_path =
     (if mount_path \<noteq> [] then
        (let target_path' = drop (length mount_path) target_path
         in if \<not> prefix ''/'' target_path' then ''/'' @ target_path' else target_path')
      else target_path)"

text \<open>
  \<^verbatim>\<open>_proxy_request\<close>. Its \<^verbatim>\<open>except RuntimeError\<close> turns the error of \<^verbatim>\<open>pick_backend\<close> into
  a 503 carrying the same message; any other exception would escape to the framework as
  a 500, and \<^verbatim>\<open>pick_backend\<close> raises none. In the streaming case the release is left to the
  background task, so the pool returned still counts the request.
\<close>

definition proxy_request ::
  "request \<Rightarrow> backend_pool \<Rightarrow> (string \<Rightarrow> upstream) \<Rightarrow> string \<Rightarrow> handled"
where
  "proxy_request req p client mount_path =
     (case pick_backend p of
        Inl (RuntimeError msg) \<Rightarrow> (HTTPException 503 msg, [], p)
      | Inl _ \<Rightarrow> (HTTPException 500 [], [], p)
      | Inr (i, p') \<Rightarrow>
          (let target_path = rewrite_path (path req) mount_path;
               u = url (backends p' ! i) @ target_path
           in case client u of
                Opened status_code \<Rightarrow> (StreamingResponse status_code i, [u], p')
              | OpenFailed \<Rightarrow>
                  (HTTPException 502 ''Upstream request failed'', [u], release_backend p' i)))"

text \<open>The background task \<^verbatim>\<open>_cleanup\<close> of a streaming response.\<close>

definition cleanup :: "response \<Rightarrow> backend_pool \<Rightarrow> backend_pool" where
  "cleanup r p = (case r of StreamingResponse status_code i \<Rightarrow> release_backend p i | _ \<Rightarrow> p)"

definition health :: "backend_pool \<Rightarrow> handled" where
  "health p =
     (if \<not> any_healthy p then (HTTPException 503 ''No healthy inference backends'', [], p)
      else (JSONResponse 200 (JObj [(''status'', JStr ''healthy'')]), [], p))"

definition proxy_inference :: "request \<Rightarrow> backend_pool \<Rightarrow> (string \<Rightarrow> upstream) \<Rightarrow> handled" where
  "proxy_inference req p client = proxy_request req p client []"

definition proxy_fallback :: "request \<Rightarrow> backend_pool \<Rightarrow> (string \<Rightarrow> upstream) \<Rightarrow> handled" where
  "proxy_fallback req p client =
     (case backends p of
        [] \<Rightarrow> (HTTPException 503 ''No MLNode backends configured'', [], p)
      | b # bs \<Rightarrow>
          (let p' = p\<lparr>backends := (backends p)[0 := mark_request_start b]\<rparr>;
               path_component = (if path req \<noteq> [] then path req else ''/'');
               u = url b @ path_component
           in case client u of
                Opened status_code \<Rightarrow> (StreamingResponse status_code 0, [u], p')
              | OpenFailed \<Rightarrow>
                  (HTTPException 502 ''Upstream request failed'', [u], release_backend p' 0)))"

section \<open>Scenarios\<close>

text \<open>Concrete settings, backends and pools on which the properties below are run.\<close>

definition example_settings :: settings where
  "example_settings =
     \<lparr>backend_urls = [''http://b1'', ''http://b2'', ''http://b3''],
      refresh_interval = DEFAULT_REFRESH_INTERVAL, request_timeout = DEFAULT_REQUEST_TIMEOUT,
      state_timeout = DEFAULT_STATE_TIMEOUT, health_timeout = DEFAULT_HEALTH_TIMEOUT\<rparr>"

definition node :: "string \<Rightarrow> json \<Rightarrow> bool \<Rightarrow> int \<Rightarrow> backend" where
  "node u st h n =
     \<lparr>url = u, settings = example_settings, state = st, healthy = h, active_requests = n\<rparr>"

definition s5_pool :: backend_pool where
  "s5_pool =
     \<lparr>pool_settings = example_settings,
      backends = [node ''http://b1'' (JStr ''INFERENCE'') True 3,
                  node ''http://b2'' (JStr ''INFERENCE'') True 1,
                  node ''http://b3'' (JStr ''INFERENCE'') True 1]\<rparr>"

definition stopped_pool :: backend_pool where
  "stopped_pool =
     \<lparr>pool_settings = example_settings,
      backends = [node ''http://b1'' (JStr ''STOPPED'') True 0]\<rparr>"

definition mixed_pool :: backend_pool where
  "mixed_pool =
     \<lparr>pool_settings = example_settings,
      backends = [node ''http://b1'' JNull False 0,
                  node ''http://b2'' (JStr ''TRAIN'') True 0,
                  node ''http://b3'' (JStr ''POW'') False 2]\<rparr>"

definition s3_pool :: backend_pool where
  "s3_pool =
     \<lparr>pool_settings = example_settings,
      backends = [node ''http://b1'' (JStr ''INFERENCE'') False 0,
                  node ''http://b2'' JNull False 4]\<rparr>"

definition s6_pool :: backend_pool where
  "s6_pool =
     \<lparr>pool_settings = example_settings,
      backends = [node ''http://b1'' (JStr ''INFERENCE'') True 2]\<rparr>"

definition refusing_client :: "string \<Rightarrow> upstream" where
  "refusing_client u = OpenFailed"

definition models_request :: request where
  "models_request = \<lparr>path = ''/v1/models''\<rparr>"

definition b1_client :: "string \<Rightarrow> http_result" where
  "b1_client u =
     (if u = ''http://b1/api/v1/state''
        then Response 200 (Json (JObj [(''version'', JInt 3), (''state'', JStr ''INFERENCE'')]))
      else if u = ''http://b1/health'' then Response 200 NotJson
      else RequestFailed)"

definition down_client :: "string \<Rightarrow> http_result" where
  "down_client u = (if u = ''http://b1/health'' then Response 503 NotJson else RequestFailed)"

text \<open>A backend whose state endpoint answers 200 with the JSON array \<open>[1]\<close>.\<close>

definition array_client :: "string \<Rightarrow> http_result" where
  "array_client u =
     (if u = ''http://b1/api/v1/state'' then Response 200 (Json (JArr [JInt 1]))
      else Response 200 NotJson)"

text \<open>A backend whose state endpoint answers 200 with a body nested too deep to decode.\<close>

definition deep_client :: "string \<Rightarrow> http_result" where
  "deep_client u =
     (if u = ''http://b1/api/v1/state'' then Response 200 NestedTooDeep
      else Response 200 NotJson)"

definition example_float :: "string \<Rightarrow> pyfloat option" where
  "example_float raw =
     (if raw = ''60'' then Some (Finite 60)
      else if raw = ''0.5'' then Some (Finite (1 / 2))
      else None)"

definition example_env :: "string \<rightharpoonup> string" where
  "example_env =
     [''MLNODE_BACKENDS'' \<mapsto> '' http://b1/ ,http://b2,, '',
      ''MLNODE_REQUEST_TIMEOUT'' \<mapsto> ''60'']"


definition loaded_settings :: settings where
  "loaded_settings =
     \<lparr>backend_urls = [''http://b1'', ''http://b2''],
      refresh_interval = Finite 2, request_timeout = Finite 60,
      state_timeout = Finite 5, health_timeout = Finite 2\<rparr>"


section \<open>Backend: the request counter\<close>

lemma run_events_nonneg:
  "0 \<le> active_requests b \<Longrightarrow> 0 \<le> active_requests (foldl apply_event b evs)"
proof (induction evs arbitrary: b)
  case Nil
  then show ?case by simp
next
  case (Cons ev evs)
  have "0 \<le> active_requests (apply_event b ev)"
    using Cons.prems by (cases ev) (simp_all add: mark_request_start_def mark_request_done_def)
  then show ?case using Cons.IH by simp
qed

text \<open>
  C5. \<^verbatim>\<open>mark_request_start\<close> adds one to \<open>active_requests\<close>; \<^verbatim>\<open>mark_request_done\<close>
  subtracts one when the counter is positive and otherwise leaves the backend as it is,
  so a counter at 0 stays at 0. Both are total: the source has no failing branch. From
  a fresh backend, and from any backend whose counter is a natural number, every sequence
  of starts, dones and monitor polls leaves \<open>active_requests \<ge> 0\<close>.
\<close>

theorem active_requests_never_negative:
  "active_requests (mark_request_start b) = active_requests b + 1
   \<and> active_requests (mark_request_done b) =
       (if 0 < active_requests b then active_requests b - 1 else active_requests b)
   \<and> mark_request_done (b\<lparr>active_requests := 0\<rparr>) = b\<lparr>active_requests := 0\<rparr>
   \<and> 0 \<le> active_requests (mark_request_done (b\<lparr>active_requests := int n\<rparr>))
   \<and> 0 \<le> active_requests (run_events (Backend u s) evs)
   \<and> 0 \<le> active_requests (run_events (b\<lparr>active_requests := int n\<rparr>) evs)"
  by (simp add: mark_request_start_def mark_request_done_def run_events_def
      run_events_nonneg Backend_def)

section \<open>BackendPool: selection\<close>

lemma min_by_split:
  "\<exists>ys zs. b # xs = ys @ min_by key b xs # zs
     \<and> (\<forall>y\<in>set ys. key (min_by key b xs) < key y)
     \<and> (\<forall>z\<in>set zs. key (min_by key b xs) \<le> key z)"
proof (induction xs arbitrary: b)
  case Nil
  show ?case
  proof (intro exI conjI)
    show "[b] = [] @ min_by key b [] # []" by simp
  qed simp_all
next
  case (Cons x xs)
  show ?case
  proof (cases "key x < key b")
    case True
    define m where "m = min_by key x xs"
    have m: "min_by key b (x # xs) = m" using True by (simp add: m_def)
    from Cons.IH [of x] obtain ys zs where
      s: "x # xs = ys @ m # zs"
      and before: "\<forall>y\<in>set ys. key m < key y"
      and after: "\<forall>z\<in>set zs. key m \<le> key z"
      unfolding m_def by blast
    have "key m \<le> key x"
    proof (cases ys)
      case Nil
      then show ?thesis using s by simp
    next
      case (Cons y ys')
      then have "x \<in> set ys" using s by simp
      then show ?thesis using before by force
    qed
    then have lt: "key m < key b" using True by simp
    show ?thesis unfolding m
    proof (intro exI conjI)
      show "b # x # xs = (b # ys) @ m # zs" using s by simp
      show "\<forall>y\<in>set (b # ys). key m < key y" using lt before by simp
      show "\<forall>z\<in>set zs. key m \<le> key z" by (rule after)
    qed
  next
    case False
    define m where "m = min_by key b xs"
    have m: "min_by key b (x # xs) = m" using False by (simp add: m_def)
    from Cons.IH [of b] obtain ys zs where
      s: "b # xs = ys @ m # zs"
      and before: "\<forall>y\<in>set ys. key m < key y"
      and after: "\<forall>z\<in>set zs. key m \<le> key z"
      unfolding m_def by blast
    show ?thesis
    proof (cases ys)
      case Nil
      then have mb: "m = b" and zs: "zs = xs" using s by simp_all
      show ?thesis unfolding m
      proof (intro exI conjI)
        show "b # x # xs = [] @ m # (x # xs)" using mb by simp
        show "\<forall>z\<in>set (x # xs). key m \<le> key z" using after False mb zs by auto
      qed simp
    next
      case (Cons y ys')
      then have yb: "y = b" and xs: "xs = ys' @ m # zs" using s by simp_all
      have "key m < key b" using before Cons yb by simp
      then have lt: "key m < key x" using False by simp
      show ?thesis unfolding m
      proof (intro exI conjI)
        show "b # x # xs = (b # x # ys') @ m # zs" using xs by simp
        show "\<forall>y\<in>set (b # x # ys'). key m < key y" using lt before Cons yb by auto
        show "\<forall>z\<in>set zs. key m \<le> key z" by (rule after)
      qed
    qed
  qed
qed

lemma candidates_sorted: "sorted_wrt (<) (filter P [0 ..< n])"
  by (simp add: sorted_wrt_filter)

lemma pick_index:
  fixes key :: "nat \<Rightarrow> int"
  assumes cand: "filter P [0 ..< n] = c # cs" and i_def: "i = min_by key c cs"
  shows "i < n \<and> P i \<and> (\<forall>j<n. P j \<longrightarrow> key i \<le> key j) \<and> (\<forall>j<i. P j \<longrightarrow> key i < key j)"
proof -
  obtain ys zs where s: "c # cs = ys @ i # zs"
    and before: "\<forall>y\<in>set ys. key i < key y"
    and after: "\<forall>z\<in>set zs. key i \<le> key z"
    using min_by_split [of c cs key] unfolding i_def by blast
  have eq: "filter P [0 ..< n] = ys @ i # zs" using cand s by simp
  have mem: "j \<in> set (ys @ i # zs) \<longleftrightarrow> j < n \<and> P j" for j
    unfolding eq [symmetric] by simp
  have srt: "sorted_wrt (<) (ys @ i # zs)"
    using candidates_sorted [of P n] eq by simp
  have i: "i < n \<and> P i" using mem [of i] by simp
  have least: "\<forall>j<n. P j \<longrightarrow> key i \<le> key j"
  proof (intro allI impI)
    fix j assume "j < n" "P j"
    then have "j \<in> set (ys @ i # zs)" using mem by blast
    then show "key i \<le> key j" using before after by force
  qed
  have first: "\<forall>j<i. P j \<longrightarrow> key i < key j"
  proof (intro allI impI)
    fix j assume ji: "j < i" and "P j"
    then have "j < n \<and> P j" using i by simp
    then have "j \<in> set (ys @ i # zs)" using mem [of j] by blast
    moreover have "j \<notin> set (i # zs)" using srt ji by (auto simp: sorted_wrt_append)
    ultimately have "j \<in> set ys" by simp
    then show "key i < key j" using before by blast
  qed
  from i least first show ?thesis by blast
qed

lemma candidates_empty:
  "filter (\<lambda>i. P (xs ! i)) [0 ..< length xs] = [] \<longleftrightarrow> (\<forall>x\<in>set xs. \<not> P x)"
  by (auto simp: filter_empty_conv all_set_conv_all_nth)

text \<open>
  C1. \<^verbatim>\<open>pick_backend\<close> fails with the no-healthy-backend error exactly when no backend
  of the pool is available. Otherwise it returns an available backend whose
  \<open>active_requests\<close> is the smallest among the available ones and strictly smaller than
  that of every available backend configured before it (first configured wins a tie),
  and in the pool it returns exactly that backend's counter is one higher. The whole
  body, increment included, is one step: nothing of the pool is observable in between.
\<close>

theorem pick_backend_least_loaded:
  "(pick_backend p = Inl (RuntimeError ''No healthy inference backends available'')
      \<longleftrightarrow> (\<forall>b\<in>set (backends p). \<not> is_available b))
   \<and> ((\<exists>b\<in>set (backends p). is_available b) \<longrightarrow>
        (\<exists>i. pick_backend p =
                Inr (i, p\<lparr>backends := (backends p)
                          [i := (backends p ! i)\<lparr>active_requests :=
                                   active_requests (backends p ! i) + 1\<rparr>]\<rparr>)
           \<and> i < length (backends p)
           \<and> is_available (backends p ! i)
           \<and> (\<forall>j<length (backends p). is_available (backends p ! j) \<longrightarrow>
                 active_requests (backends p ! i) \<le> active_requests (backends p ! j))
           \<and> (\<forall>j<i. is_available (backends p ! j) \<longrightarrow>
                 active_requests (backends p ! i) < active_requests (backends p ! j))))"
proof -
  let ?bs = "backends p"
  let ?cands = "filter (\<lambda>i. is_available (?bs ! i)) [0 ..< length ?bs]"
  let ?key = "\<lambda>i. active_requests (?bs ! i)"
  have none: "?cands = [] \<longleftrightarrow> (\<forall>b\<in>set ?bs. \<not> is_available b)"
    by (rule candidates_empty)
  have fails: "pick_backend p = Inl (RuntimeError ''No healthy inference backends available'')
      \<longleftrightarrow> ?cands = []"
    by (simp add: pick_backend_def no_healthy_message_def Let_def split: list.split)
  have picks: "\<exists>i. pick_backend p =
                Inr (i, p\<lparr>backends := ?bs[i := (?bs ! i)\<lparr>active_requests := ?key i + 1\<rparr>]\<rparr>)
           \<and> i < length ?bs \<and> is_available (?bs ! i)
           \<and> (\<forall>j<length ?bs. is_available (?bs ! j) \<longrightarrow> ?key i \<le> ?key j)
           \<and> (\<forall>j<i. is_available (?bs ! j) \<longrightarrow> ?key i < ?key j)"
    if some: "\<exists>b\<in>set ?bs. is_available b"
  proof -
    from some none obtain c cs where cand: "?cands = c # cs"
      by (cases ?cands) auto
    define i where "i = min_by ?key c cs"
    have res: "pick_backend p =
        Inr (i, p\<lparr>backends := ?bs[i := (?bs ! i)\<lparr>active_requests := ?key i + 1\<rparr>]\<rparr>)"
      using cand by (simp add: pick_backend_def Let_def i_def mark_request_start_def)
    from pick_index [OF cand i_def] res show ?thesis by blast
  qed
  from none fails picks show ?thesis by blast
qed

text \<open>Scenario S5: counters 3, 1, 1, all available; the second backend is picked.\<close>

theorem pick_backend_least_loaded_witness:
  "(\<exists>b\<in>set (backends s5_pool). is_available b)
   \<and> pick_backend s5_pool =
       Inr (1, s5_pool\<lparr>backends := [node ''http://b1'' (JStr ''INFERENCE'') True 3,
                                      node ''http://b2'' (JStr ''INFERENCE'') True 2,
                                      node ''http://b3'' (JStr ''INFERENCE'') True 1]\<rparr>)"
  using pick_backend_least_loaded [of s5_pool]
  by (simp add: s5_pool_def node_def is_available_def pick_backend_def mark_request_start_def
      Let_def)

lemma pick_backend_fails_iff:
  "pick_backend p = Inl (RuntimeError ''No healthy inference backends available'')
     \<longleftrightarrow> (\<forall>b\<in>set (backends p). \<not> is_available b)"
proof -
  have "pick_backend p = Inl (RuntimeError ''No healthy inference backends available'')
      \<longleftrightarrow> filter (\<lambda>i. is_available (backends p ! i)) [0 ..< length (backends p)] = []"
    by (simp add: pick_backend_def no_healthy_message_def Let_def split: list.split)
  then show ?thesis by (simp only: candidates_empty)
qed

text \<open>
  C9. A freshly constructed backend has no state, is not healthy and counts no request.
  So in the pool as \<^verbatim>\<open>BackendPool.__init__\<close> builds it, before any monitor poll, no
  backend is available, \<^verbatim>\<open>pick_backend\<close> fails, \<^verbatim>\<open>any_healthy\<close> is false and
  \<^verbatim>\<open>aggregate_state\<close> is \<open>STOPPED\<close>.
\<close>

theorem fresh_pool_has_no_available_backend:
  "state (Backend u s) = JNull \<and> \<not> healthy (Backend u s) \<and> active_requests (Backend u s) = 0
   \<and> (\<forall>b\<in>set (backends (BackendPool s)). \<not> is_available b)
   \<and> pick_backend (BackendPool s) =
       Inl (RuntimeError ''No healthy inference backends available'')
   \<and> \<not> any_healthy (BackendPool s)
   \<and> aggregate_state (BackendPool s) = ''STOPPED''"
proof -
  have fresh: "state (Backend u s) = JNull \<and> \<not> healthy (Backend u s)
      \<and> active_requests (Backend u s) = 0"
    by (simp add: Backend_def)
  have none: "\<forall>b\<in>set (backends (BackendPool s)). \<not> is_available b"
    by (auto simp: BackendPool_def Backend_def is_available_def)
  have pick: "pick_backend (BackendPool s) =
       Inl (RuntimeError ''No healthy inference backends available'')"
    using none by (simp only: pick_backend_fails_iff)
  have any: "\<not> any_healthy (BackendPool s)"
    using none by (simp add: any_healthy_def list_ex_iff)
  have "filter (\<lambda>b. truthy (state b)) (backends (BackendPool s)) = []"
    by (auto simp: filter_empty_conv BackendPool_def Backend_def)
  then have agg: "aggregate_state (BackendPool s) = ''STOPPED''"
    by (simp add: aggregate_state_def)
  from fresh none pick any agg show ?thesis by blast
qed

text \<open>The pool of three configured URLs at startup.\<close>

theorem fresh_pool_has_no_available_backend_witness:
  "length (backends (BackendPool example_settings)) = 3
   \<and> state (backends (BackendPool example_settings) ! 0) = JNull
   \<and> pick_backend (BackendPool example_settings) =
       Inl (RuntimeError ''No healthy inference backends available'')
   \<and> \<not> any_healthy (BackendPool example_settings)
   \<and> aggregate_state (BackendPool example_settings) = ''STOPPED''"
  using fresh_pool_has_no_available_backend [of "''http://b1''" example_settings]
  by (simp add: BackendPool_def example_settings_def Backend_def)

section \<open>BackendPool: the aggregate state\<close>

lemma known_state_member:
  "s \<noteq> [] \<Longrightarrow>
   JStr s \<in> set (map state (filter (\<lambda>b. truthy (state b)) bs))
     \<longleftrightarrow> (\<exists>b\<in>set bs. state b = JStr s)"
  by (auto simp: image_iff)

text \<open>
  C3, as the code has it. \<^verbatim>\<open>aggregate_state\<close> returns the first element of the priority
  list \<open>INFERENCE, POW, TRAIN, STOPPED\<close> that equals some backend's state, and \<open>STOPPED\<close>
  when none does. Hence it returns \<open>STOPPED\<close> exactly when no backend's state is
  \<open>INFERENCE\<close>, \<open>POW\<close> or \<open>TRAIN\<close>; in particular it does when every state is null.
\<close>

theorem aggregate_state_first_match:
  "aggregate_state p =
     (case find (\<lambda>s. \<exists>b\<in>set (backends p). state b = JStr s)
             [''INFERENCE'', ''POW'', ''TRAIN'', ''STOPPED''] of
        Some s \<Rightarrow> s
      | None \<Rightarrow> ''STOPPED'')
   \<and> (aggregate_state p = ''STOPPED'' \<longleftrightarrow>
        \<not> (\<exists>b\<in>set (backends p).
              state b = JStr ''INFERENCE'' \<or> state b = JStr ''POW'' \<or> state b = JStr ''TRAIN''))
   \<and> ((\<forall>b\<in>set (backends p). state b = JNull) \<longrightarrow> aggregate_state p = ''STOPPED'')"
proof -
  let ?has = "\<lambda>s. \<exists>b\<in>set (backends p). state b = JStr s"
  define states where "states = map state (filter (\<lambda>b. truthy (state b)) (backends p))"
  have m1: "JStr ''INFERENCE'' \<in> set states \<longleftrightarrow> ?has ''INFERENCE''"
    unfolding states_def by (rule known_state_member) simp
  have m2: "JStr ''POW'' \<in> set states \<longleftrightarrow> ?has ''POW''"
    unfolding states_def by (rule known_state_member) simp
  have m3: "JStr ''TRAIN'' \<in> set states \<longleftrightarrow> ?has ''TRAIN''"
    unfolding states_def by (rule known_state_member) simp
  have "aggregate_state p =
      first_priority [''INFERENCE'', ''POW'', ''TRAIN'', ''STOPPED''] states"
    by (simp add: aggregate_state_def Let_def states_def)
  then have agg: "aggregate_state p =
      (if ?has ''INFERENCE'' then ''INFERENCE'' else if ?has ''POW'' then ''POW''
       else if ?has ''TRAIN'' then ''TRAIN'' else ''STOPPED'')"
    by (simp only: first_priority.simps m1 m2 m3 if_cancel)
  have one: "aggregate_state p =
     (case find ?has [''INFERENCE'', ''POW'', ''TRAIN'', ''STOPPED''] of
        Some s \<Rightarrow> s | None \<Rightarrow> ''STOPPED'')"
    unfolding agg by simp
  have two: "aggregate_state p = ''STOPPED'' \<longleftrightarrow>
        \<not> (\<exists>b\<in>set (backends p).
              state b = JStr ''INFERENCE'' \<or> state b = JStr ''POW'' \<or> state b = JStr ''TRAIN'')"
    unfolding agg by auto
  have three: "(\<forall>b\<in>set (backends p). state b = JNull) \<longrightarrow> aggregate_state p = ''STOPPED''"
    unfolding two by auto
  from one two three show ?thesis by blast
qed

text \<open>A pool at startup (every state null), and a pool with states null, \<open>TRAIN\<close>, \<open>POW\<close>.\<close>

theorem aggregate_state_first_match_witness:
  "list_all (\<lambda>b. state b = JNull) (backends (BackendPool example_settings))
   \<and> aggregate_state (BackendPool example_settings) = ''STOPPED''
   \<and> aggregate_state mixed_pool = ''POW''"
  using aggregate_state_first_match [of "BackendPool example_settings"]
    aggregate_state_first_match [of mixed_pool]
  by (simp add: BackendPool_def example_settings_def Backend_def mixed_pool_def node_def)

text \<open>
  The converse direction fails: a pool whose only backend reports \<open>STOPPED\<close> has a known
  state, and its aggregate state is \<open>STOPPED\<close>.
\<close>

theorem aggregate_state_stopped_counterexample:
  "aggregate_state stopped_pool = ''STOPPED''
   \<and> state (backends stopped_pool ! 0) = JStr ''STOPPED''
   \<and> state (backends stopped_pool ! 0) \<noteq> JNull"
  by (simp add: stopped_pool_def node_def aggregate_state_def)

section \<open>HTTP surface: the health route\<close>

text \<open>
  C8. \<^verbatim>\<open>/health\<close> answers 200 with body \<open>{"status": "healthy"}\<close> exactly when some backend
  is healthy and in state \<open>INFERENCE\<close>, and 503 with detail
  \<open>No healthy inference backends\<close> exactly when none is. Either way it opens no upstream
  URL and leaves the pool as it was.
\<close>

theorem health_route:
  "(fst (health p) = JSONResponse 200 (JObj [(''status'', JStr ''healthy'')])
      \<longleftrightarrow> (\<exists>b\<in>set (backends p). healthy b \<and> state b = JStr ''INFERENCE''))
   \<and> (fst (health p) = HTTPException 503 ''No healthy inference backends''
      \<longleftrightarrow> \<not> (\<exists>b\<in>set (backends p). healthy b \<and> state b = JStr ''INFERENCE''))
   \<and> snd (health p) = ([], p)"
  by (simp add: health_def any_healthy_def list_ex_iff is_available_def)

section \<open>Proxy: failures\<close>

lemma pick_backend_Inr:
  assumes "pick_backend p = Inr (i, p')"
  shows "i < length (backends p) \<and> is_available (backends p ! i)
         \<and> p' = p\<lparr>backends := (backends p)[i := mark_request_start (backends p ! i)]\<rparr>"
proof -
  let ?bs = "backends p"
  let ?P = "\<lambda>i. is_available (?bs ! i)"
  let ?key = "\<lambda>i. active_requests (?bs ! i)"
  obtain c cs where cand: "filter ?P [0 ..< length ?bs] = c # cs"
    using assms by (cases "filter ?P [0 ..< length ?bs]") (simp_all add: pick_backend_def)
  have res: "pick_backend p =
      Inr (min_by ?key c cs, p\<lparr>backends := ?bs[min_by ?key c cs :=
             mark_request_start (?bs ! min_by ?key c cs)]\<rparr>)"
    using cand by (simp add: pick_backend_def Let_def)
  then have i: "i = min_by ?key c cs"
    and p': "p' = p\<lparr>backends := ?bs[i := mark_request_start (?bs ! i)]\<rparr>"
    using assms by simp_all
  from pick_index [OF cand i] p' show ?thesis by blast
qed

lemma release_after_start:
  assumes "i < length (backends p)" and "0 \<le> active_requests (backends p ! i)"
  shows "release_backend
           (p\<lparr>backends := (backends p)[i := mark_request_start (backends p ! i)]\<rparr>) i = p"
proof -
  have "mark_request_done (mark_request_start (backends p ! i)) = backends p ! i"
    using assms(2) by (simp add: mark_request_done_def mark_request_start_def)
  then show ?thesis
    using assms(1) by (simp add: release_backend_def)
qed

text \<open>
  C2. When no backend is available, \<^verbatim>\<open>_proxy_request\<close> answers 503 with the message of
  \<^verbatim>\<open>pick_backend\<close>, opens no upstream URL and leaves the pool, every counter included, as
  it was. When a backend is picked and opening the upstream stream raises, it answers 502
  with detail \<open>Upstream request failed\<close>, and the pool it leaves behind is the pool before
  the call: the release has already run when the 502 is raised. The counter of the picked
  backend is taken to be non-negative, as it always is (C5).
\<close>

theorem proxy_request_failures:
  "(\<not> any_healthy p \<longrightarrow>
      proxy_request req p client mount_path =
        (HTTPException 503 ''No healthy inference backends available'', [], p))
   \<and> (pick_backend p = Inr (i, p')
        \<and> client (url (backends p ! i) @ rewrite_path (path req) mount_path) = OpenFailed
        \<and> 0 \<le> active_requests (backends p ! i) \<longrightarrow>
      proxy_request req p client mount_path =
        (HTTPException 502 ''Upstream request failed'',
         [url (backends p ! i) @ rewrite_path (path req) mount_path], p))"
proof (intro conjI impI)
  assume "\<not> any_healthy p"
  then have "\<forall>b\<in>set (backends p). \<not> is_available b"
    by (simp add: any_healthy_def list_ex_iff)
  then have "pick_backend p = Inl (RuntimeError ''No healthy inference backends available'')"
    by (simp only: pick_backend_fails_iff)
  then show "proxy_request req p client mount_path =
        (HTTPException 503 ''No healthy inference backends available'', [], p)"
    by (simp add: proxy_request_def)
next
  let ?u = "url (backends p ! i) @ rewrite_path (path req) mount_path"
  assume a: "pick_backend p = Inr (i, p') \<and> client ?u = OpenFailed
      \<and> 0 \<le> active_requests (backends p ! i)"
  then have i: "i < length (backends p)"
    and p': "p' = p\<lparr>backends := (backends p)[i := mark_request_start (backends p ! i)]\<rparr>"
    using pick_backend_Inr [of p i p'] by simp_all
  have u: "url (backends p' ! i) = url (backends p ! i)"
    using i by (simp add: p' mark_request_start_def)
  have rel: "release_backend p' i = p"
    unfolding p' using i a by (simp only: release_after_start)
  show "proxy_request req p client mount_path =
        (HTTPException 502 ''Upstream request failed'', [?u], p)"
    using a by (simp add: proxy_request_def Let_def u rel)
qed

text \<open>
  Scenario S3 (no backend available) and scenario S6 (one backend, upstream connect
  fails, counter back at its pre-call value 2).
\<close>

theorem proxy_request_failures_witness:
  "\<not> any_healthy s3_pool
   \<and> proxy_request models_request s3_pool refusing_client [] =
       (HTTPException 503 ''No healthy inference backends available'', [], s3_pool)
   \<and> pick_backend s6_pool =
       Inr (0, s6_pool\<lparr>backends := [node ''http://b1'' (JStr ''INFERENCE'') True 3]\<rparr>)
   \<and> proxy_request models_request s6_pool refusing_client [] =
       (HTTPException 502 ''Upstream request failed'', [''http://b1/v1/models''], s6_pool)"
proof -
  have unavailable: "\<not> any_healthy s3_pool"
    by (simp add: any_healthy_def s3_pool_def node_def is_available_def)
  have picked: "pick_backend s6_pool =
       Inr (0, s6_pool\<lparr>backends := [node ''http://b1'' (JStr ''INFERENCE'') True 3]\<rparr>)"
    by (simp add: pick_backend_def s6_pool_def node_def is_available_def
        mark_request_start_def Let_def)
  have failed: "refusing_client (url (backends s6_pool ! 0)
        @ rewrite_path (path models_request) []) = OpenFailed"
    by (simp add: refusing_client_def)
  have counter: "0 \<le> active_requests (backends s6_pool ! 0)"
    by (simp add: s6_pool_def node_def)
  have u: "url (backends s6_pool ! 0) @ rewrite_path (path models_request) []
      = ''http://b1/v1/models''"
    by (simp add: s6_pool_def node_def models_request_def rewrite_path_def)
  from proxy_request_failures [of s3_pool models_request refusing_client "[]"] unavailable
  have r503: "proxy_request models_request s3_pool refusing_client [] =
       (HTTPException 503 ''No healthy inference backends available'', [], s3_pool)"
    by blast
  from proxy_request_failures [of s6_pool models_request refusing_client "[]" 0] picked failed counter
  have "proxy_request models_request s6_pool refusing_client [] =
       (HTTPException 502 ''Upstream request failed'',
        [url (backends s6_pool ! 0) @ rewrite_path (path models_request) []], s6_pool)"
    by blast
  then have r502: "proxy_request models_request s6_pool refusing_client [] =
       (HTTPException 502 ''Upstream request failed'', [''http://b1/v1/models''], s6_pool)"
    by (simp only: u)
  from unavailable r503 picked r502 show ?thesis by blast
qed

section \<open>Proxy: the path rewrite\<close>

lemma drop_eq_self_iff: "drop n xs = xs \<longleftrightarrow> n = 0 \<or> xs = []"
proof
  assume "drop n xs = xs"
  then have eq: "length xs - n = length xs" by (metis length_drop)
  show "n = 0 \<or> xs = []"
  proof (rule ccontr)
    assume "\<not> (n = 0 \<or> xs = [])"
    then have "0 < n" and "0 < length xs" by auto
    then have "length xs - n < length xs" by arith
    with eq show False by simp
  qed
qed auto

lemma rewrite_path_unchanged_iff:
  assumes "mount_path \<noteq> []"
  shows "rewrite_path target_path mount_path = target_path \<longleftrightarrow>
           (\<exists>rest. target_path = ''/'' @ rest \<and> \<not> prefix ''/'' rest
              \<and> (length mount_path = 1 \<or> rest = []))"
proof -
  obtain n where n: "length mount_path = Suc n"
    using assms by (cases mount_path) auto
  show ?thesis
  proof (cases "prefix ''/'' (drop (length mount_path) target_path)")
    case True
    then have "drop (length mount_path) target_path \<noteq> target_path"
      using n by (auto simp: drop_eq_self_iff)
    moreover have "\<not> (\<exists>rest. target_path = ''/'' @ rest \<and> \<not> prefix ''/'' rest
              \<and> (length mount_path = 1 \<or> rest = []))"
    proof
      assume "\<exists>rest. target_path = ''/'' @ rest \<and> \<not> prefix ''/'' rest
              \<and> (length mount_path = 1 \<or> rest = [])"
      then obtain rest where t: "target_path = ''/'' @ rest"
        and np: "\<not> prefix ''/'' rest"
        and c: "length mount_path = 1 \<or> rest = []"
        by blast
      from c have "drop (length mount_path) target_path = rest"
        using t n by auto
      with True np show False by simp
    qed
    ultimately show ?thesis using True assms by (simp add: rewrite_path_def Let_def)
  next
    case False
    have "''/'' @ drop (length mount_path) target_path = target_path \<longleftrightarrow>
           (\<exists>rest. target_path = ''/'' @ rest \<and> \<not> prefix ''/'' rest
              \<and> (length mount_path = 1 \<or> rest = []))"
    proof (cases target_path)
      case Nil
      then show ?thesis by simp
    next
      case (Cons c rest)
      then show ?thesis using False n by (auto simp: drop_eq_self_iff)
    qed
    then show ?thesis using False assms by (simp add: rewrite_path_def Let_def)
  qed
qed

text \<open>
  C4, as the code has it. With an empty \<open>mount_path\<close> the path is forwarded unchanged.
  With a non-empty \<open>mount_path\<close> the first \<open>len(mount_path)\<close> characters of the path are
  dropped, whether or not they are \<open>mount_path\<close>, and \<open>/\<close> is prepended when the remainder
  does not start with \<open>/\<close>. So a path that starts with \<open>mount_path\<close> loses exactly that
  prefix. With a non-empty \<open>mount_path\<close> the path is forwarded unchanged exactly when it
  is \<open>/\<close> followed by a remainder that does not start with \<open>/\<close>, and \<open>mount_path\<close> has one
  character or the remainder is empty.
\<close>

theorem rewrite_path_drops_mount_length:
  "rewrite_path target_path [] = target_path
   \<and> (mount_path \<noteq> [] \<longrightarrow>
        rewrite_path target_path mount_path =
          (if prefix ''/'' (drop (length mount_path) target_path)
           then drop (length mount_path) target_path
           else ''/'' @ drop (length mount_path) target_path))
   \<and> (mount_path \<noteq> [] \<longrightarrow>
        rewrite_path (mount_path @ rest) mount_path =
          (if prefix ''/'' rest then rest else ''/'' @ rest))
   \<and> (mount_path \<noteq> [] \<longrightarrow>
        (rewrite_path target_path mount_path = target_path \<longleftrightarrow>
           (\<exists>r. target_path = ''/'' @ r \<and> \<not> prefix ''/'' r
              \<and> (length mount_path = 1 \<or> r = []))))"
proof -
  have rewrite: "rewrite_path target_path [] = target_path
   \<and> (mount_path \<noteq> [] \<longrightarrow>
        rewrite_path target_path mount_path =
          (if prefix ''/'' (drop (length mount_path) target_path)
           then drop (length mount_path) target_path
           else ''/'' @ drop (length mount_path) target_path))
   \<and> (mount_path \<noteq> [] \<longrightarrow>
        rewrite_path (mount_path @ rest) mount_path =
          (if prefix ''/'' rest then rest else ''/'' @ rest))"
    by (simp add: rewrite_path_def Let_def)
  have unchanged: "mount_path \<noteq> [] \<longrightarrow>
        (rewrite_path target_path mount_path = target_path \<longleftrightarrow>
           (\<exists>r. target_path = ''/'' @ r \<and> \<not> prefix ''/'' r
              \<and> (length mount_path = 1 \<or> r = [])))"
    using rewrite_path_unchanged_iff [of mount_path target_path] by blast
  from rewrite unchanged show ?thesis by blast
qed

text \<open>
  Mount path \<open>/lb\<close> on two paths below it and on the path \<open>/\<close>, mount path \<open>/zz\<close> on a path
  outside it, and mount path \<open>/\<close>.
\<close>

theorem rewrite_path_drops_mount_length_witness:
  "rewrite_path ''/lb/v1/models'' ''/lb'' = ''/v1/models''
   \<and> rewrite_path ''/lbv1'' ''/lb'' = ''/v1''
   \<and> rewrite_path ''/abc/x'' ''/zz'' = ''/c/x''
   \<and> rewrite_path ''/'' ''/lb'' = ''/''
   \<and> rewrite_path ''/v1/models'' ''/'' = ''/v1/models''"
  using rewrite_path_drops_mount_length [of "''/lb/v1/models''" "''/lb''" "''/v1/models''"]
    rewrite_path_drops_mount_length [of "''/lbv1''" "''/lb''" "''v1''"]
    rewrite_path_drops_mount_length [of "''/abc/x''" "''/zz''" "[]"]
    rewrite_path_drops_mount_length [of "''/''" "''/lb''" "[]"]
    rewrite_path_drops_mount_length [of "''/v1/models''" "''/''" "[]"]
  by simp

text \<open>
  The handler never tests whether the path starts with \<open>mount_path\<close>: the path \<open>/abc/x\<close>,
  which is outside the mount \<open>/zz\<close>, is forwarded as \<open>/c/x\<close>.
\<close>

theorem rewrite_path_not_prefix_counterexample:
  "\<not> prefix ''/zz'' ''/abc/x'' \<and> rewrite_path ''/abc/x'' ''/zz'' = ''/c/x''
   \<and> rewrite_path ''/abc/x'' ''/zz'' \<noteq> ''/abc/x''"
  by (simp add: rewrite_path_def)

section \<open>Monitor\<close>

lemma fetch_status_iff: "fetch_status r \<longleftrightarrow> (\<exists>body. r = Response 200 body)"
  by (cases r) (simp_all add: fetch_status_def)

text \<open>
  The responses the iteration copes with. When the state request returns 200 with a
  JSON object, the backend's state becomes the value under key \<open>state\<close>, null when the key
  is absent. When the request fails, returns another status, or returns a body that is
  not JSON, the state becomes null. In each of these cases \<open>healthy\<close> then becomes true
  exactly when the health request returns status 200; nothing else of the backend changes.
\<close>

lemma monitor_iteration_handled:
  "(client (url b @ ''/api/v1/state'') = Response 200 (Json (JObj kvs)) \<longrightarrow>
      monitor_iteration b client =
        Inr (b\<lparr>state := (case map_of kvs ''state'' of None \<Rightarrow> JNull | Some v \<Rightarrow> v),
               healthy := (\<exists>body. client (url b @ ''/health'') = Response 200 body)\<rparr>))
   \<and> (client (url b @ ''/api/v1/state'') = RequestFailed
        \<or> (\<exists>status_code body. status_code \<noteq> 200
              \<and> client (url b @ ''/api/v1/state'') = Response status_code body)
        \<or> client (url b @ ''/api/v1/state'') = Response 200 NotJson \<longrightarrow>
      monitor_iteration b client =
        Inr (b\<lparr>state := JNull,
               healthy := (\<exists>body. client (url b @ ''/health'') = Response 200 body)\<rparr>))"
proof (intro conjI impI)
  assume "client (url b @ ''/api/v1/state'') = Response 200 (Json (JObj kvs))"
  then show "monitor_iteration b client =
        Inr (b\<lparr>state := (case map_of kvs ''state'' of None \<Rightarrow> JNull | Some v \<Rightarrow> v),
               healthy := (\<exists>body. client (url b @ ''/health'') = Response 200 body)\<rparr>)"
    by (cases kvs)
      (simp_all add: monitor_iteration_def fetch_json_def dict_get_def fetch_status_iff)
next
  assume "client (url b @ ''/api/v1/state'') = RequestFailed
        \<or> (\<exists>status_code body. status_code \<noteq> 200
              \<and> client (url b @ ''/api/v1/state'') = Response status_code body)
        \<or> client (url b @ ''/api/v1/state'') = Response 200 NotJson"
  then have "fetch_json (client (url b @ ''/api/v1/state'')) = Inr JNull"
    by (auto simp: fetch_json_def)
  then show "monitor_iteration b client =
        Inr (b\<lparr>state := JNull,
               healthy := (\<exists>body. client (url b @ ''/health'') = Response 200 body)\<rparr>)"
    by (simp add: monitor_iteration_def fetch_status_iff)
qed

text \<open>A backend that answers both requests, then one whose requests fail.\<close>

lemma monitor_iteration_handled_examples:
  "b1_client ''http://b1/api/v1/state'' =
       Response 200 (Json (JObj [(''version'', JInt 3), (''state'', JStr ''INFERENCE'')]))
   \<and> monitor_iteration (Backend ''http://b1'' example_settings) b1_client =
       Inr (node ''http://b1'' (JStr ''INFERENCE'') True 0)
   \<and> down_client ''http://b1/api/v1/state'' = RequestFailed
   \<and> monitor_iteration (node ''http://b1'' (JStr ''INFERENCE'') True 1) down_client =
       Inr (node ''http://b1'' JNull False 1)"
  using monitor_iteration_handled
      [of b1_client "Backend ''http://b1'' example_settings"
          "[(''version'', JInt 3), (''state'', JStr ''INFERENCE'')]"]
    monitor_iteration_handled
      [of down_client "node ''http://b1'' (JStr ''INFERENCE'') True 1" "[]"]
  by (simp add: b1_client_def down_client_def Backend_def node_def)

text \<open>
  The responses it does not cope with. A 200 response whose JSON body is truthy and not
  an object (a non-empty array or string, a non-zero number, \<open>true\<close>) has no \<^verbatim>\<open>.get\<close>: the
  call raises \<^verbatim>\<open>AttributeError\<close>. A 200 response nested too deep raises
  \<^verbatim>\<open>RecursionError\<close> from \<^verbatim>\<open>.json()\<close>, past \<^verbatim>\<open>except ValueError\<close>.
\<close>

lemma monitor_iteration_non_object:
  assumes "client (url b @ ''/api/v1/state'') = Response 200 (Json v)"
    and "truthy v" and "\<forall>kvs. v \<noteq> JObj kvs"
  shows "monitor_iteration b client = Inl AttributeError"
  using assms by (cases v) (simp_all add: monitor_iteration_def fetch_json_def dict_get_def)

lemma monitor_iteration_nested_too_deep:
  "client (url b @ ''/api/v1/state'') = Response 200 NestedTooDeep \<Longrightarrow>
   monitor_iteration b client = Inl RecursionError"
  by (simp add: monitor_iteration_def fetch_json_def)

text \<open>
  C6. The claim: every monitor iteration sets the backend's state, to null on any error,
  and then sets \<open>healthy\<close> from the health request. The code breaks it. A healthy backend
  in state \<open>INFERENCE\<close> is polled, and its state endpoint answers 200 with the JSON array
  \<open>[1]\<close>, or with a body nested too deep to decode; its health endpoint answers 200. The
  iteration raises (\<^verbatim>\<open>AttributeError\<close>, \<^verbatim>\<open>RecursionError\<close>) instead of returning a backend
  with state null: the state stays \<open>INFERENCE\<close>, \<open>healthy\<close> is not refreshed, and the loop,
  which handles no exception, ends with it.
\<close>

theorem monitor_iteration_raises_on_array_body:
  "array_client ''http://b1/api/v1/state'' = Response 200 (Json (JArr [JInt 1]))
   \<and> monitor_iteration (node ''http://b1'' (JStr ''INFERENCE'') True 0) array_client
       = Inl AttributeError
   \<and> monitor_backend (node ''http://b1'' (JStr ''INFERENCE'') True 0)
         [array_client, down_client] = Inl AttributeError
   \<and> deep_client ''http://b1/api/v1/state'' = Response 200 NestedTooDeep
   \<and> monitor_iteration (node ''http://b1'' (JStr ''INFERENCE'') True 0) deep_client
       = Inl RecursionError"
  by (simp add: monitor_iteration_def fetch_json_def dict_get_def array_client_def
      deep_client_def node_def)

section \<open>Settings\<close>

text \<open>The models of \<^verbatim>\<open>str.split\<close>, \<^verbatim>\<open>str.strip\<close> and \<^verbatim>\<open>str.rstrip\<close> behave as the builtins do.\<close>

lemma split_on_not_Nil: "split_on sep s \<noteq> []"
  by (induction s) (simp_all split: list.split)

lemma split_on_pieces: "w \<in> set (split_on sep s) \<Longrightarrow> sep \<notin> set w"
proof (induction s arbitrary: w)
  case Nil
  then show ?case by simp
next
  case (Cons c cs)
  show ?case
  proof (cases "c = sep")
    case True
    then show ?thesis using Cons by auto
  next
    case False
    obtain v vs where vs: "split_on sep cs = v # vs"
      using split_on_not_Nil [of sep cs] by (cases "split_on sep cs") auto
    then have "w = c # v \<or> w \<in> set vs" using Cons.prems False by simp
    then show ?thesis using Cons.IH vs False by auto
  qed
qed

lemma length_split_on: "length (split_on sep s) = Suc (count_list s sep)"
  by (induction s) (auto split: list.split simp: split_on_not_Nil)

lemma concat_split_on: "concat (split_on sep s) = filter (\<lambda>c. c \<noteq> sep) s"
  by (induction s) (auto split: list.split simp: split_on_not_Nil)

lemma strip_ends:
  "strip s \<noteq> [] \<Longrightarrow> \<not> isspace (hd (strip s)) \<and> \<not> isspace (last (strip s))"
proof -
  assume ne: "strip s \<noteq> []"
  let ?l = "dropWhile isspace s"
  let ?r = "dropWhile isspace (rev ?l)"
  have r: "?r \<noteq> []" using ne by (simp add: strip_def)
  then have "\<not> isspace (hd ?r)" by (rule hd_dropWhile)
  then have last: "\<not> isspace (last (strip s))" using r by (simp add: strip_def last_rev)
  have "rev ?l \<noteq> []" using r by (metis dropWhile.simps(1))
  then have l: "?l \<noteq> []" by simp
  then have hl: "\<not> isspace (hd ?l)" by (rule hd_dropWhile)
  obtain ys where "rev ?l = ys @ ?r" and "\<forall>y\<in>set ys. isspace y"
    by (metis takeWhile_dropWhile_id set_takeWhileD)
  then have "?l = rev ?r @ rev ys" by (metis rev_append rev_rev_ident)
  then have "hd ?l = hd (rev ?r)" using r by (metis hd_append2 rev_is_Nil_conv)
  then have "\<not> isspace (hd (strip s))" using hl by (simp add: strip_def)
  with last show ?thesis by simp
qed

lemma rstrip_end: "rstrip chars s \<noteq> [] \<Longrightarrow> last (rstrip chars s) \<notin> set chars"
proof -
  assume ne: "rstrip chars s \<noteq> []"
  let ?r = "dropWhile (\<lambda>c. c \<in> set chars) (rev s)"
  have r: "?r \<noteq> []" using ne by (simp add: rstrip_def)
  then have "\<not> (hd ?r \<in> set chars)" by (rule hd_dropWhile)
  then show ?thesis using r by (simp add: rstrip_def last_rev)
qed

lemma rstrip_prefix: "prefix (rstrip chars s) s"
proof -
  have "rev s = takeWhile (\<lambda>c. c \<in> set chars) (rev s) @ dropWhile (\<lambda>c. c \<in> set chars) (rev s)"
    by simp
  then have "s = rstrip chars s @ rev (takeWhile (\<lambda>c. c \<in> set chars) (rev s))"
    unfolding rstrip_def by (metis rev_append rev_rev_ident)
  then show ?thesis by (metis prefixI)
qed




lemma load_cases:
  "load float_of getenv =
     (if parse_backends (getenv_or getenv ''MLNODE_BACKENDS'' []) = []
      then Inl (RuntimeError backends_message)
      else
        (case float_env float_of getenv ''MLNODE_REFRESH_INTERVAL'' DEFAULT_REFRESH_INTERVAL of
           Inl e \<Rightarrow> Inl e
         | Inr ri \<Rightarrow>
        (case float_env float_of getenv ''MLNODE_REQUEST_TIMEOUT'' DEFAULT_REQUEST_TIMEOUT of
           Inl e \<Rightarrow> Inl e
         | Inr rt \<Rightarrow>
        (case float_env float_of getenv ''MLNODE_STATE_TIMEOUT'' DEFAULT_STATE_TIMEOUT of
           Inl e \<Rightarrow> Inl e
         | Inr st \<Rightarrow>
        (case float_env float_of getenv ''MLNODE_HEALTH_TIMEOUT'' DEFAULT_HEALTH_TIMEOUT of
           Inl e \<Rightarrow> Inl e
         | Inr ht \<Rightarrow>
             Inr \<lparr>backend_urls = parse_backends (getenv_or getenv ''MLNODE_BACKENDS'' []),
                  refresh_interval = ri, request_timeout = rt,
                  state_timeout = st, health_timeout = ht\<rparr>)))))"
  by (simp add: load_def Let_def)


lemma load_Inr_iff:
  "load float_of getenv = Inr s \<longleftrightarrow>
     parse_backends (getenv_or getenv ''MLNODE_BACKENDS'' []) \<noteq> []
     \<and> backend_urls s = parse_backends (getenv_or getenv ''MLNODE_BACKENDS'' [])
     \<and> float_env float_of getenv ''MLNODE_REFRESH_INTERVAL'' DEFAULT_REFRESH_INTERVAL
         = Inr (refresh_interval s)
     \<and> float_env float_of getenv ''MLNODE_REQUEST_TIMEOUT'' DEFAULT_REQUEST_TIMEOUT
         = Inr (request_timeout s)
     \<and> float_env float_of getenv ''MLNODE_STATE_TIMEOUT'' DEFAULT_STATE_TIMEOUT
         = Inr (state_timeout s)
     \<and> float_env float_of getenv ''MLNODE_HEALTH_TIMEOUT'' DEFAULT_HEALTH_TIMEOUT
         = Inr (health_timeout s)"
  by (cases s) (auto simp: load_cases split: sum.splits)

lemma parse_backends_empty_iff:
  "parse_backends raw = [] \<longleftrightarrow> (\<forall>b\<in>set (split_on (CHR '','') raw). strip b = [])"
  by (simp add: parse_backends_def filter_empty_conv)





text \<open>
  An environment with two backends and a request timeout; the same environment with a
  malformed state timeout; and the empty environment.
\<close>

lemma example_env_loads: "load example_float example_env = Inr loaded_settings"
  by (simp add: load_def getenv_or_def example_env_def parse_backends_def strip_def
      rstrip_def isspace_def float_env_def example_float_def loaded_settings_def
      DEFAULT_REFRESH_INTERVAL_def DEFAULT_STATE_TIMEOUT_def DEFAULT_HEALTH_TIMEOUT_def)


section \<open>HTTP surface: the fallback route\<close>

text \<open>
  C10. A settings value that \<^verbatim>\<open>Settings.load\<close> returned has at least one backend URL, and
  \<^verbatim>\<open>BackendPool\<close> creates one backend per URL, in order. So for that pool, and for any
  pool with as many backends (no operation adds or removes one), the fallback route never
  answers 503 \<open>No MLNode backends configured\<close>.
\<close>

theorem fallback_pool_never_empty:
  assumes "load float_of getenv = Inr s"
  shows "backend_urls s \<noteq> []
   \<and> map url (backends (BackendPool s)) = backend_urls s
   \<and> backends (BackendPool s) \<noteq> []
   \<and> fst (proxy_fallback req (BackendPool s) client)
        \<noteq> HTTPException 503 ''No MLNode backends configured''
   \<and> (length (backends p) = length (backends (BackendPool s)) \<longrightarrow>
        fst (proxy_fallback req p client)
          \<noteq> HTTPException 503 ''No MLNode backends configured'')"
proof -
  have urls: "backend_urls s \<noteq> []"
    using assms by (simp add: load_Inr_iff)
  have same: "map url (backends (BackendPool s)) = backend_urls s"
    by (simp add: BackendPool_def Backend_def comp_def)
  have ne: "backends (BackendPool s) \<noteq> []"
    using urls by (simp add: BackendPool_def)
  have reach: "fst (proxy_fallback req q client)
        \<noteq> HTTPException 503 ''No MLNode backends configured''"
    if q: "backends q \<noteq> []" for q
  proof -
    obtain b bs where "backends q = b # bs"
      using q by (cases "backends q") auto
    then show ?thesis
      by (cases "client (url b @ (if path req \<noteq> [] then path req else ''/''))")
        (simp_all add: proxy_fallback_def Let_def)
  qed
  have other: "length (backends p) = length (backends (BackendPool s)) \<longrightarrow>
        fst (proxy_fallback req p client)
          \<noteq> HTTPException 503 ''No MLNode backends configured''"
  proof
    assume "length (backends p) = length (backends (BackendPool s))"
    then have "backends p \<noteq> []" using ne by auto
    then show "fst (proxy_fallback req p client)
          \<noteq> HTTPException 503 ''No MLNode backends configured''"
      by (rule reach)
  qed
  from urls same ne reach [OF ne] other show ?thesis by blast
qed

text \<open>The pool loaded from the example environment; the upstream refuses the connection.\<close>

theorem fallback_pool_never_empty_witness:
  "load example_float example_env = Inr loaded_settings
   \<and> map url (backends (BackendPool loaded_settings)) = [''http://b1'', ''http://b2'']
   \<and> proxy_fallback models_request (BackendPool loaded_settings) refusing_client =
       (HTTPException 502 ''Upstream request failed'', [''http://b1/v1/models''],
        BackendPool loaded_settings)"
proof -
  have loaded: "load example_float example_env = Inr loaded_settings"
    by (rule example_env_loads)
  have urls: "map url (backends (BackendPool loaded_settings)) = [''http://b1'', ''http://b2'']"
    using fallback_pool_never_empty [OF loaded] by (simp add: loaded_settings_def)
  have "proxy_fallback models_request (BackendPool loaded_settings) refusing_client =
       (HTTPException 502 ''Upstream request failed'', [''http://b1/v1/models''],
        BackendPool loaded_settings)"
    by (simp add: proxy_fallback_def BackendPool_def Backend_def loaded_settings_def
        models_request_def refusing_client_def release_backend_def mark_request_start_def
        mark_request_done_def Let_def)
  with loaded urls show ?thesis by blast
qed

section \<open>Proxy: the streaming case\<close>

text \<open>
  Scenario S1 in general: when the upstream opens, the picked backend counts one more
  request while the response streams, and the background task brings the pool back.
\<close>

lemma proxy_request_streams:
  assumes "pick_backend p = Inr (i, p')"
    and "client (url (backends p ! i) @ rewrite_path (path req) mount_path) = Opened status_code"
    and "0 \<le> active_requests (backends p ! i)"
  shows "proxy_request req p client mount_path =
           (StreamingResponse status_code i,
            [url (backends p ! i) @ rewrite_path (path req) mount_path], p')
         \<and> active_requests (backends p' ! i) = active_requests (backends p ! i) + 1
         \<and> cleanup (StreamingResponse status_code i) p' = p"
proof -
  have i: "i < length (backends p)"
    and p': "p' = p\<lparr>backends := (backends p)[i := mark_request_start (backends p ! i)]\<rparr>"
    using pick_backend_Inr [OF assms(1)] by simp_all
  have u: "url (backends p' ! i) = url (backends p ! i)"
    using i by (simp add: p' mark_request_start_def)
  have held: "active_requests (backends p' ! i) = active_requests (backends p ! i) + 1"
    using i by (simp add: p' mark_request_start_def)
  have rel: "release_backend p' i = p"
    unfolding p' using i assms(3) by (simp only: release_after_start)
  have "proxy_request req p client mount_path =
           (StreamingResponse status_code i,
            [url (backends p ! i) @ rewrite_path (path req) mount_path], p')"
    using assms(1,2) by (simp add: proxy_request_def Let_def u)
  then show ?thesis using held rel by (simp add: cleanup_def)
qed

text \<open>However long a monitor runs, it never touches the request counter or the URL.\<close>

lemma monitor_backend_keeps_counter:
  "monitor_backend b clients = Inr b' \<Longrightarrow>
   active_requests b' = active_requests b \<and> url b' = url b"
proof (induction clients arbitrary: b)
  case Nil
  then show ?case by simp
next
  case (Cons client rest)
  then obtain b1 where step: "monitor_iteration b client = Inr b1"
    and rest: "monitor_backend b1 rest = Inr b'"
    by (auto split: sum.splits)
  have "active_requests b1 = active_requests b \<and> url b1 = url b"
    using step by (auto simp: monitor_iteration_def Let_def split: sum.splits if_splits)
  then show ?case using Cons.IH [OF rest] by simp
qed

end
